theory Spec2Isabelle
  imports Complex_Main "HOL-Library.Word" "HOL-Library.Log_Nat"
begin

section \<open>Data model\<close>

text \<open>
  The player is one React component, \<open>App\<close>. Its view state (\<open>useState\<close>) and the
  objects it reaches through refs (\<open>useRef\<close>) are gathered in one record; each event
  handler is a function from the state of the render it was created in to the state
  after its updates have been applied. What the browser decides (the outcome of
  \<open>audio.play()\<close>, the draws of \<open>crypto.randomUUID()\<close> and \<open>Math.random()\<close>, the
  outcome of the network call) is an argument of the handler.

  A browser \<open>File\<close>: the handlers read its \<open>name\<close> and its MIME \<open>type\<close> only.
  Strings are byte strings (UTF-8); the two characters the code looks for in a name,
  \<open>.\<close> and \<open>/\<close>, are single bytes that occur in no multi-byte sequence.
\<close>

record file_handle =
  fname :: string
  ftype :: string

text \<open>\<open>interface Track { file: File; id: string; name: string }\<close>\<close>

record track =
  t_file :: file_handle
  t_id :: string
  t_name :: string

text \<open>
  The \<open><audio>\<close> element behind \<open>audioRef\<close>. \<open>src\<close> is the object URL assigned to it
  (\<open>None\<close>: the empty string of an element that never had a source, which is falsy).
  Object URLs are numbered in the order \<open>URL.createObjectURL\<close> hands them out.
\<close>

record audio_el =
  src :: "nat option"
  paused :: bool
  el_currentTime :: rat

text \<open>The analyser node behind \<open>analyserRef\<close>, created by \<open>initAudioContext\<close>.\<close>

record analyser_node =
  fftSize :: nat
  source_connected :: bool

text \<open>A call of \<open>URL.createObjectURL\<close> (with the URL it returned) or of \<open>URL.revokeObjectURL\<close>.\<close>

datatype url_op = Create nat | Revoke nat

record app_state =
  playlist :: "track list"
  currentTrackIndex :: int
  isPlaying :: bool
  isShuffle :: bool
  audioRef :: "audio_el option"
  analyserRef :: "analyser_node option"
  aiAnalysis :: string
  isAnalyzing :: bool
  urls :: "(nat \<times> file_handle) list"
  url_counter :: nat
  url_log :: "url_op list"
  requests :: "string list"

text \<open>
  \<open>urls\<close> is the browser's store of object URLs that were created and not yet revoked,
  each with the file it exposes; \<open>url_counter\<close> numbers the next one. \<open>url_log\<close> lists the
  calls of \<open>URL.createObjectURL\<close> and \<open>URL.revokeObjectURL\<close> in the order the handlers
  made them, oldest first. \<open>requests\<close> lists the prompts' track-name lists sent to the
  hosted model, oldest first.

  The state once the component is mounted: the \<open>useState\<close> initial values, and
  \<open>audioRef.current\<close> the rendered \<open><audio>\<close> element, which has no source yet.
\<close>

definition initial :: app_state where
  "initial =
     \<lparr>playlist = [], currentTrackIndex = - 1, isPlaying = False, isShuffle = False,
      audioRef = Some \<lparr>src = None, paused = True, el_currentTime = 0\<rparr>,
      analyserRef = None, aiAnalysis = [], isAnalyzing = False,
      urls = [], url_counter = 0, url_log = [], requests = []\<rparr>"

section \<open>Numbers\<close>

text \<open>
  A JavaScript number is an IEEE 754 binary64 value. The finite ones are rationals; where
  \<open>NaN\<close> can arise a number is a \<open>rat option\<close> with \<open>None\<close> for \<open>NaN\<close>. Infinities do not
  arise: no division by zero other than \<open>0 / 0\<close> is made, and no value comes near
  \<open>2 ^ 1024\<close>. An arithmetic operation returns the exact result rounded to the nearest
  binary64 value, ties to the even significand: \<open>to_double\<close> is that rounding, with a
  significand of 53 bits and the smallest exponent \<open>- 1022\<close> (below it the spacing stays
  \<open>2 ^ - 1074\<close>).
\<close>

definition pow2 :: "int \<Rightarrow> rat" where
  "pow2 e = (if 0 \<le> e then 2 ^ nat e else 1 / 2 ^ nat (- e))"

text \<open>For \<open>x > 0\<close>, the exponent \<open>e\<close> with \<open>2 ^ e \<le> x < 2 ^ (e + 1)\<close>.\<close>

definition floor_log2 :: "rat \<Rightarrow> int" where
  "floor_log2 x = (if 1 \<le> x then bitlen \<lfloor>x\<rfloor> - 1 else - bitlen (\<lceil>1 / x\<rceil> - 1))"

definition round_half_even :: "rat \<Rightarrow> int" where
  "round_half_even q =
     (let f = \<lfloor>q\<rfloor>; r = q - of_int f
      in if r < 1 / 2 then f else if 1 / 2 < r then f + 1 else if even f then f else f + 1)"

definition to_double_pos :: "rat \<Rightarrow> rat" where
  "to_double_pos x =
     (let e = max (floor_log2 x) (- 1022); ulp = pow2 (e - 52)
      in of_int (round_half_even (x / ulp)) * ulp)"

definition to_double :: "rat \<Rightarrow> rat" where
  "to_double x = (if x = 0 then 0 else if x < 0 then - to_double_pos (- x) else to_double_pos x)"


definition fmul :: "rat \<Rightarrow> rat \<Rightarrow> rat" where
  "fmul a b = to_double (a * b)"


section \<open>Browser primitives\<close>

text \<open>
  The remainder operator \<open>%\<close> of JavaScript truncates towards zero: the result has the
  sign of the dividend. (Every use below is guarded by \<open>playlist.length === 0\<close>, so the
  divisor is positive where it is evaluated.)
\<close>

definition js_rem :: "int \<Rightarrow> int \<Rightarrow> int" where
  "js_rem a b = sgn a * (\<bar>a\<bar> mod \<bar>b\<bar>)"

text \<open>
  \<open>arr.splice(start, 1)\<close>: a negative start counts from the end, a start beyond the end
  is clamped to it, and at most one element is deleted.
\<close>

definition splice1 :: "'a list \<Rightarrow> int \<Rightarrow> 'a list" where
  "splice1 xs start =
     (let len = int (length xs);
          k = nat (if start < 0 then max (len + start) 0 else min start len)
      in take k xs @ drop (Suc k) xs)"

definition createObjectURL :: "file_handle \<Rightarrow> app_state \<Rightarrow> nat \<times> app_state" where
  "createObjectURL f s =
     (url_counter s,
      s\<lparr>urls := urls s @ [(url_counter s, f)], url_counter := Suc (url_counter s),
        url_log := url_log s @ [Create (url_counter s)]\<rparr>)"

definition revokeObjectURL :: "nat \<Rightarrow> app_state \<Rightarrow> app_state" where
  "revokeObjectURL u s =
     s\<lparr>urls := filter (\<lambda>p. fst p \<noteq> u) (urls s), url_log := url_log s @ [Revoke u]\<rparr>"

text \<open>
  The URLs outstanding after a sequence of calls: \<open>replay\<close> runs the calls on a store,
  \<open>live_after\<close> runs them on the empty store of a fresh page.
\<close>

fun replay :: "nat list \<Rightarrow> url_op list \<Rightarrow> nat list" where
  "replay live [] = live"
| "replay live (Create u # ops) = replay (live @ [u]) ops"
| "replay live (Revoke u # ops) = replay (filter (\<lambda>v. v \<noteq> u) live) ops"

definition live_after :: "url_op list \<Rightarrow> nat list" where
  "live_after ops = replay [] ops"


section \<open>Playback controller\<close>

text \<open>
  \<open>initAudioContext\<close>: on the first call it creates the context and an analyser with
  \<open>fftSize = 256\<close>, and connects the audio element when there is one. On later calls it
  only resumes a suspended context, which changes nothing recorded here.
\<close>

definition initAudioContext :: "app_state \<Rightarrow> app_state" where
  "initAudioContext s =
     (case analyserRef s of
        None \<Rightarrow> s\<lparr>analyserRef := Some \<lparr>fftSize = 256, source_connected = (audioRef s \<noteq> None)\<rparr>\<rparr>
      | Some _ \<Rightarrow> s)"

text \<open>
  \<open>playTrack(index)\<close>. \<open>play_ok\<close> tells whether the promise of \<open>audio.play()\<close> resolves
  (\<open>True\<close>) or rejects (\<open>False\<close>, the \<open>catch\<close> branch).
\<close>

definition playTrack :: "app_state \<Rightarrow> int \<Rightarrow> bool \<Rightarrow> app_state" where
  "playTrack s0 index play_ok =
     (let s = initAudioContext s0 in
      if index < 0 \<or> index \<ge> int (length (playlist s)) then s
      else
        (case audioRef s of
           None \<Rightarrow> s
         | Some a \<Rightarrow>
             (let tr = playlist s ! nat index;
                  s1 = (case src a of Some old \<Rightarrow> revokeObjectURL old s | None \<Rightarrow> s);
                  (objectUrl, s2) = createObjectURL (t_file tr) s1;
                  a1 = a\<lparr>src := Some objectUrl\<rparr>;
                  s3 = s2\<lparr>audioRef := Some a1, currentTrackIndex := index\<rparr>
              in if play_ok
                 then s3\<lparr>audioRef := Some (a1\<lparr>paused := False\<rparr>), isPlaying := True\<rparr>
                 else s3\<lparr>isPlaying := False\<rparr>)))"

text \<open>
  \<open>togglePlay\<close>. The promise of the second \<open>audio.play()\<close> is dropped by the code;
  \<open>play_ok\<close> tells whether the element starts.
\<close>

definition togglePlay :: "app_state \<Rightarrow> bool \<Rightarrow> app_state" where
  "togglePlay s play_ok =
     (case audioRef s of
        None \<Rightarrow> s
      | Some a \<Rightarrow>
          if currentTrackIndex s = - 1 \<and> length (playlist s) > 0 then playTrack s 0 play_ok
          else
            (let s1 = (if isPlaying s then s\<lparr>audioRef := Some (a\<lparr>paused := True\<rparr>)\<rparr>
                       else (initAudioContext s)
                              \<lparr>audioRef := Some (a\<lparr>paused := (if play_ok then False else paused a)\<rparr>)\<rparr>)
             in s1\<lparr>isPlaying := \<not> isPlaying s\<rparr>))"

text \<open>
  \<open>nextTrack\<close>. \<open>rnd\<close> is the draw of \<open>Math.random()\<close>, a number in \<open>[0, 1)\<close>, read only
  when shuffle is on; \<open>Math.floor\<close> is applied to the rounded product.
\<close>

definition nextTrack :: "app_state \<Rightarrow> rat \<Rightarrow> bool \<Rightarrow> app_state" where
  "nextTrack s rnd play_ok =
     (if length (playlist s) = 0 then s
      else
        (let nextIndex =
               (if isShuffle s then \<lfloor>fmul rnd (of_nat (length (playlist s)))\<rfloor>
                else js_rem (currentTrackIndex s + 1) (int (length (playlist s))))
         in playTrack s nextIndex play_ok))"

definition prevTrack :: "app_state \<Rightarrow> bool \<Rightarrow> app_state" where
  "prevTrack s play_ok =
     (if length (playlist s) = 0 then s
      else
        (let prevIndex =
               js_rem (currentTrackIndex s - 1 + int (length (playlist s)))
                 (int (length (playlist s)))
         in playTrack s prevIndex play_ok))"

definition removeTrack :: "app_state \<Rightarrow> int \<Rightarrow> app_state" where
  "removeTrack s index =
     (let newPlaylist = splice1 (playlist s) index;
          s1 = s\<lparr>playlist := newPlaylist\<rparr>
      in if index = currentTrackIndex s then
           (let s2 = s1\<lparr>isPlaying := False\<rparr>;
                s3 = (case audioRef s2 of
                        Some a \<Rightarrow> s2\<lparr>audioRef := Some (a\<lparr>paused := True, el_currentTime := 0\<rparr>)\<rparr>
                      | None \<Rightarrow> s2)
            in s3\<lparr>currentTrackIndex := - 1\<rparr>)
         else if index < currentTrackIndex s then
           s1\<lparr>currentTrackIndex := currentTrackIndex s - 1\<rparr>
         else s1)"

section \<open>Playlist ingestion\<close>

text \<open>\<open>file.type.startsWith('audio/')\<close>\<close>

definition startsWith :: "string \<Rightarrow> string \<Rightarrow> bool" where
  "startsWith str p = (take (length p) str = p)"

definition is_audio :: "file_handle \<Rightarrow> bool" where
  "is_audio f = startsWith (ftype f) ''audio/''"

text \<open>
  \<open>name.replace(/\.[^/.]+$/, "")\<close>. The pattern is a dot, then one or more characters
  that are neither \<open>/\<close> nor \<open>.\<close>, then the end of the string. \<open>ext_match\<close> tells whether
  the pattern matches at the head of a string; \<open>replace_ext\<close> tries the positions from
  the left, as the regular-expression engine does, and deletes the first match, which
  runs to the end.
\<close>

fun ext_match :: "string \<Rightarrow> bool" where
  "ext_match [] = False"
| "ext_match (c # cs) =
     (c = CHR ''.'' \<and> cs \<noteq> [] \<and> list_all (\<lambda>d. d \<noteq> CHR ''/'' \<and> d \<noteq> CHR ''.'') cs)"

fun replace_ext :: "string \<Rightarrow> string" where
  "replace_ext [] = []"
| "replace_ext (c # cs) = (if ext_match (c # cs) then [] else c # replace_ext cs)"

text \<open>
  \<open>handleDrop\<close> and \<open>handleFileSelect\<close>. \<open>uuid k\<close> is the result of the \<open>k\<close>-th call of
  \<open>crypto.randomUUID()\<close> made by the handler (one call for each audio file, in order).
  An absent file list behaves as the empty one.
\<close>

definition handleDrop :: "app_state \<Rightarrow> file_handle list \<Rightarrow> (nat \<Rightarrow> string) \<Rightarrow> app_state" where
  "handleDrop s files uuid =
     (if length files > 0 then
        (let newFiles = filter is_audio files;
             newTracks = map (\<lambda>(k, f). \<lparr>t_file = f, t_id = uuid k, t_name = replace_ext (fname f)\<rparr>)
                           (enumerate 0 newFiles);
             updated = playlist s @ newTracks
         in s\<lparr>playlist := updated\<rparr>)
      else s)"

definition handleFileSelect :: "app_state \<Rightarrow> file_handle list \<Rightarrow> (nat \<Rightarrow> string) \<Rightarrow> app_state" where
  "handleFileSelect s files uuid =
     (if length files > 0 then
        (let newFiles = filter is_audio files;
             newTracks = map (\<lambda>(k, f). \<lparr>t_file = f, t_id = uuid k, t_name = replace_ext (fname f)\<rparr>)
                           (enumerate 0 newFiles)
         in s\<lparr>playlist := playlist s @ newTracks\<rparr>)
      else s)"

section \<open>AI mood summary\<close>

definition key_missing_msg :: string where
  "key_missing_msg = ''API Key Missing. Cannot analyze.''"

text \<open>The message of the \<open>catch\<close> branch, as the bytes of its UTF-8 encoding.\<close>

definition connection_error_msg :: string where
  "connection_error_msg =
     [CHR 0xE6, CHR 0x97, CHR 0xA0, CHR 0xE6, CHR 0xB3, CHR 0x95, CHR 0xE8, CHR 0xBF, CHR 0x9E,
      CHR 0xE6, CHR 0x8E, CHR 0xA5, CHR 0xE5, CHR 0x88, CHR 0xB0] @ '' AI '' @
     [CHR 0xE5, CHR 0xA4, CHR 0xA7, CHR 0xE8, CHR 0x84, CHR 0x91, CHR 0xE8, CHR 0xBF, CHR 0x9B,
      CHR 0xE8, CHR 0xA1, CHR 0x8C, CHR 0xE5, CHR 0x88, CHR 0x86, CHR 0xE6, CHR 0x9E, CHR 0x90] @
     '' (Connection Error).''"

text \<open>\<open>Array.prototype.join\<close>\<close>

fun join :: "string list \<Rightarrow> string \<Rightarrow> string" where
  "join [] sep = []"
| "join [x] sep = x"
| "join (x # y # ys) sep = x @ sep @ join (y # ys) sep"

text \<open>
  What the awaited \<open>generateContent\<close> call does: it resolves with a response whose text
  is given, or it rejects.
\<close>

datatype ai_outcome = Resolved string | Rejected

text \<open>
  \<open>analyzePlaylist\<close>. \<open>api_key\<close> is \<open>process.env.API_KEY\<close> (\<open>None\<close>: undefined; the empty
  string is falsy as well). Each call of \<open>generateContent\<close> is recorded in \<open>requests\<close>.
\<close>

definition analyzePlaylist :: "app_state \<Rightarrow> string option \<Rightarrow> ai_outcome \<Rightarrow> app_state" where
  "analyzePlaylist s api_key outcome =
     (if length (playlist s) = 0 then s
      else
        (let s1 = s\<lparr>isAnalyzing := True, aiAnalysis := []\<rparr> in
         if api_key = None \<or> api_key = Some [] then
           s1\<lparr>aiAnalysis := key_missing_msg, isAnalyzing := False\<rparr>
         else
           (let trackNames = join (map t_name (playlist s1)) '', '';
                s2 = s1\<lparr>requests := requests s1 @ [trackNames]\<rparr>;
                s3 = (case outcome of
                        Resolved txt \<Rightarrow> s2\<lparr>aiAnalysis := txt\<rparr>
                      | Rejected \<Rightarrow> s2\<lparr>aiAnalysis := connection_error_msg\<rparr>)
            in s3\<lparr>isAnalyzing := False\<rparr>)))"

section \<open>Visualizer\<close>








record bar =
  b_value :: "rat option"
  barHeight :: "rat option"
  hue :: rat
  saturation :: "rat option"
  lightness :: "rat option"




section \<open>Sessions\<close>

text \<open>
  The user's actions and the element's \<open>ended\<close> event, each with what the browser
  decides during the handler. A session is a list of them, run from a state.
\<close>

datatype event =
    PlayTrack int bool
  | TogglePlay bool
  | NextTrack rat bool
  | PrevTrack bool
  | Ended rat bool
  | RemoveTrack int
  | Drop "file_handle list" "nat \<Rightarrow> string"
  | FileSelect "file_handle list" "nat \<Rightarrow> string"
  | ToggleShuffle
  | Analyze "string option" ai_outcome

fun handle :: "app_state \<Rightarrow> event \<Rightarrow> app_state" where
  "handle s (PlayTrack i ok) = playTrack s i ok"
| "handle s (TogglePlay ok) = togglePlay s ok"
| "handle s (NextTrack rnd ok) = nextTrack s rnd ok"
| "handle s (PrevTrack ok) = prevTrack s ok"
| "handle s (Ended rnd ok) = nextTrack s rnd ok"
| "handle s (RemoveTrack i) = removeTrack s i"
| "handle s (Drop files uuid) = handleDrop s files uuid"
| "handle s (FileSelect files uuid) = handleFileSelect s files uuid"
| "handle s ToggleShuffle = s\<lparr>isShuffle := \<not> isShuffle s\<rparr>"
| "handle s (Analyze api_key outcome) = analyzePlaylist s api_key outcome"

fun run :: "app_state \<Rightarrow> event list \<Rightarrow> app_state" where
  "run s [] = s"
| "run s (e # es) = run (handle s e) es"

section \<open>Object URLs\<close>

text \<open>
  The discipline of the object-URL store: the audio element is mounted; the URLs
  outstanding are exactly the one assigned to the element, if any; they are what the
  logged calls leave; and after each of the logged calls at most one URL was
  outstanding.
\<close>

definition url_inv :: "app_state \<Rightarrow> bool" where
  "url_inv s =
     ((case audioRef s of
         None \<Rightarrow> False
       | Some a \<Rightarrow> map fst (urls s) = (case src a of None \<Rightarrow> [] | Some u \<Rightarrow> [u]))
      \<and> live_after (url_log s) = map fst (urls s)
      \<and> (\<forall>n. length (live_after (take n (url_log s))) \<le> 1))"

section \<open>The sentinel index\<close>

text \<open>The playing flag is false whenever the active index is the sentinel \<open>- 1\<close>.\<close>

definition sentinel_inv :: "app_state \<Rightarrow> bool" where
  "sentinel_inv s = (currentTrackIndex s \<noteq> - 1 \<or> \<not> isPlaying s)"

section \<open>Sample data\<close>

text \<open>A playlist of three tracks \<open>A\<close>, \<open>B\<close>, \<open>C\<close> in a freshly mounted player.\<close>

definition song :: "string \<Rightarrow> track" where
  "song n = \<lparr>t_file = \<lparr>fname = n @ ''.mp3'', ftype = ''audio/mpeg''\<rparr>, t_id = n, t_name = n\<rparr>"

definition abc :: app_state where
  "abc = initial\<lparr>playlist := [song ''A'', song ''B'', song ''C'']\<rparr>"



definition numbered :: "nat \<Rightarrow> string" where
  "numbered k = replicate (Suc k) (CHR ''u'')"

definition session :: "event list" where
  "session = [FileSelect [\<lparr>fname = ''one.mp3'', ftype = ''audio/mpeg''\<rparr>,
                          \<lparr>fname = ''two.ogg'', ftype = ''audio/ogg''\<rparr>] numbered,
              PlayTrack 0 True, RemoveTrack 0]"

text \<open>The analyser that \<open>initAudioContext\<close> builds in the mounted player.\<close>

definition analyser0 :: analyser_node where
  "analyser0 = \<lparr>fftSize = 256, source_connected = True\<rparr>"

section \<open>Navigation\<close>

lemma js_rem_nonneg: "0 \<le> a \<Longrightarrow> 0 < b \<Longrightarrow> js_rem a b = a mod b"
  by (cases "a = 0") (simp_all add: js_rem_def)

lemma playTrack_index:
  assumes "audioRef s = Some a" "0 \<le> i" "i < int (length (playlist s))"
  shows "currentTrackIndex (playTrack s i ok) = i"
    and "playlist (playTrack s i ok) = playlist s"
    and "isPlaying (playTrack s i ok) = ok"
  using assms
  by (simp_all add: playTrack_def initAudioContext_def createObjectURL_def revokeObjectURL_def
      Let_def split: option.splits)

lemma playTrack_loads:
  assumes "audioRef s = Some a" "0 \<le> i" "i < int (length (playlist s))"
  shows "map_option src (audioRef (playTrack s i ok)) = Some (Some (url_counter s))"
    and "last (urls (playTrack s i ok)) = (url_counter s, t_file (playlist s ! nat i))"
  using assms
  by (simp_all add: playTrack_def initAudioContext_def createObjectURL_def revokeObjectURL_def
      Let_def split: option.splits)

lemma playTrack_result:
  assumes "audioRef s = Some a" "0 \<le> i" "i < int (length (playlist s))"
  shows "playTrack s i ok =
         s\<lparr>analyserRef := Some (case analyserRef s of
                                  None \<Rightarrow> \<lparr>fftSize = 256, source_connected = True\<rparr>
                                | Some g \<Rightarrow> g),
           urls := (case src a of None \<Rightarrow> urls s
                    | Some old \<Rightarrow> filter (\<lambda>p. fst p \<noteq> old) (urls s))
                   @ [(url_counter s, t_file (playlist s ! nat i))],
           url_counter := Suc (url_counter s),
           url_log := url_log s @ (case src a of None \<Rightarrow> [] | Some old \<Rightarrow> [Revoke old])
                      @ [Create (url_counter s)],
           audioRef := Some (a\<lparr>src := Some (url_counter s),
                               paused := (if ok then False else paused a)\<rparr>),
           currentTrackIndex := i,
           isPlaying := ok\<rparr>"
  using assms
  by (cases "analyserRef s"; cases "src a"; cases ok)
    (simp_all add: playTrack_def initAudioContext_def createObjectURL_def revokeObjectURL_def
      Let_def)

lemma js_rem_step_back:
  assumes "- 1 \<le> c" and "c < n" and "0 < n"
  shows "js_rem (c - 1 + n) n = (c - 1) mod n"
proof (cases "n = 1")
  case True
  then show ?thesis by (simp add: js_rem_def)
next
  case False
  with assms have "0 \<le> c - 1 + n" by linarith
  then have "js_rem (c - 1 + n) n = (c - 1 + n) mod n"
    using assms(3) by (rule js_rem_nonneg)
  then show ?thesis by simp
qed

text \<open>
  C1. In a non-empty playlist with shuffle off, \<open>nextTrack\<close> moves the active index one
  up and \<open>prevTrack\<close> one down, both modulo the length of the playlist: from the last
  index \<open>nextTrack\<close> goes to index 0, and from index 0 \<open>prevTrack\<close> goes to the last
  index. The playlist itself is unchanged. (The index is an index of the playlist or the
  sentinel \<open>- 1\<close>, and the audio element is mounted.)
\<close>

theorem next_prev_wraparound:
  assumes "playlist s \<noteq> []" and "\<not> isShuffle s" and "audioRef s = Some a"
    and "- 1 \<le> currentTrackIndex s" and "currentTrackIndex s < int (length (playlist s))"
  shows "currentTrackIndex (nextTrack s rnd ok) = (currentTrackIndex s + 1) mod int (length (playlist s))
    \<and> currentTrackIndex (prevTrack s ok) = (currentTrackIndex s - 1) mod int (length (playlist s))
    \<and> currentTrackIndex (nextTrack (s\<lparr>currentTrackIndex := int (length (playlist s)) - 1\<rparr>) rnd ok) = 0
    \<and> currentTrackIndex (prevTrack (s\<lparr>currentTrackIndex := 0\<rparr>) ok) = int (length (playlist s)) - 1
    \<and> playlist (nextTrack s rnd ok) = playlist s
    \<and> playlist (prevTrack s ok) = playlist s"
proof -
  let ?n = "int (length (playlist s))"
  let ?c = "currentTrackIndex s"
  have n: "0 < ?n" using assms(1) by simp
  have nx: "js_rem (?c + 1) ?n = (?c + 1) mod ?n"
    using assms(4) n by (simp add: js_rem_nonneg)
  have pv: "js_rem (?c - 1 + ?n) ?n = (?c - 1) mod ?n"
    using assms(4,5) n by (rule js_rem_step_back)
  have r1: "0 \<le> (?c + 1) mod ?n" "(?c + 1) mod ?n < ?n"
    and r2: "0 \<le> (?c - 1) mod ?n" "(?c - 1) mod ?n < ?n"
    using n by simp_all
  have next_eq: "nextTrack s rnd ok = playTrack s ((?c + 1) mod ?n) ok"
    using assms(1,2) nx by (simp add: nextTrack_def)
  have prev_eq: "prevTrack s ok = playTrack s ((?c - 1) mod ?n) ok"
    using assms(1) pv by (simp add: prevTrack_def)
  have last_eq: "nextTrack (s\<lparr>currentTrackIndex := ?n - 1\<rparr>) rnd ok = playTrack (s\<lparr>currentTrackIndex := ?n - 1\<rparr>) 0 ok"
    using assms(1,2) n by (simp add: nextTrack_def js_rem_nonneg)
  have first_eq: "prevTrack (s\<lparr>currentTrackIndex := 0\<rparr>) ok = playTrack (s\<lparr>currentTrackIndex := 0\<rparr>) (?n - 1) ok"
    using assms(1) n by (simp add: prevTrack_def js_rem_nonneg zmod_minus1)
  show ?thesis
    using assms(3) n r1 r2
    by (simp add: next_eq prev_eq last_eq first_eq playTrack_index)
qed

theorem next_prev_wraparound_witness:
  "playlist (playTrack abc 2 True) \<noteq> [] \<and> \<not> isShuffle (playTrack abc 2 True)
   \<and> currentTrackIndex (playTrack abc 2 True) = 2
   \<and> currentTrackIndex (nextTrack (playTrack abc 2 True) 0 True) = 0
   \<and> currentTrackIndex (prevTrack (playTrack abc 2 True) True) = 1
   \<and> currentTrackIndex (prevTrack (playTrack abc 0 True) True) = 2"
proof -
  let ?s = "playTrack abc 2 True"
  let ?t = "playTrack abc 0 True"
  have s: "?s = abc\<lparr>currentTrackIndex := 2, isPlaying := True,
                     audioRef := Some \<lparr>src = Some 0, paused = False, el_currentTime = 0\<rparr>,
                     analyserRef := Some analyser0,
                     urls := [(0, t_file (song ''C''))], url_counter := 1,
                     url_log := [Create 0]\<rparr>"
    and t: "?t = abc\<lparr>currentTrackIndex := 0, isPlaying := True,
                     audioRef := Some \<lparr>src = Some 0, paused = False, el_currentTime = 0\<rparr>,
                     analyserRef := Some analyser0,
                     urls := [(0, t_file (song ''A''))], url_counter := 1,
                     url_log := [Create 0]\<rparr>"
    by (simp_all add: playTrack_def initAudioContext_def createObjectURL_def abc_def initial_def
        analyser0_def Let_def)
  have h: "playlist ?s \<noteq> []" "\<not> isShuffle ?s"
    "audioRef ?s = Some \<lparr>src = Some 0, paused = False, el_currentTime = 0\<rparr>"
    "- 1 \<le> currentTrackIndex ?s" "currentTrackIndex ?s < int (length (playlist ?s))"
    unfolding s by (simp_all add: abc_def initial_def)
  have g: "playlist ?t \<noteq> []" "\<not> isShuffle ?t"
    "audioRef ?t = Some \<lparr>src = Some 0, paused = False, el_currentTime = 0\<rparr>"
    "- 1 \<le> currentTrackIndex ?t" "currentTrackIndex ?t < int (length (playlist ?t))"
    unfolding t by (simp_all add: abc_def initial_def)
  have c: "currentTrackIndex ?s = 2" "currentTrackIndex ?t = 0"
    "int (length (playlist ?s)) = 3" "int (length (playlist ?t)) = 3"
    unfolding s t by (simp_all add: abc_def)
  have "currentTrackIndex (nextTrack ?s 0 True) = 0" "currentTrackIndex (prevTrack ?s True) = 1"
    using next_prev_wraparound [OF h, of 0 True] unfolding c by simp_all
  moreover have "currentTrackIndex (prevTrack ?t True) = 2"
    using next_prev_wraparound [OF g, of 0 True] unfolding c by simp
  ultimately show ?thesis
    using h(1,2) c(1) by simp
qed

section \<open>Removing tracks\<close>

lemma splice1_in_range:
  "0 \<le> i \<Longrightarrow> i < int (length xs) \<Longrightarrow> splice1 xs i = take (nat i) xs @ drop (Suc (nat i)) xs"
  by (simp add: splice1_def Let_def min_def)

text \<open>
  C2. Removing the track at a valid index that is the active index leaves the playing
  flag false and the active index at the sentinel \<open>- 1\<close>; the entry is spliced out of the
  playlist, and the audio element is paused and rewound.
\<close>

theorem remove_active_stops:
  assumes "index = currentTrackIndex s" and "0 \<le> index" and "index < int (length (playlist s))"
  shows "isPlaying (removeTrack s index) = False
    \<and> currentTrackIndex (removeTrack s index) = - 1
    \<and> playlist (removeTrack s index) = take (nat index) (playlist s) @ drop (Suc (nat index)) (playlist s)
    \<and> audioRef (removeTrack s index) = map_option (\<lambda>a. a\<lparr>paused := True, el_currentTime := 0\<rparr>) (audioRef s)"
  using assms
  by (simp add: removeTrack_def Let_def splice1_in_range split: option.splits)

theorem remove_active_stops_witness:
  "(1::int) = currentTrackIndex (playTrack abc 1 True)
   \<and> isPlaying (playTrack abc 1 True)
   \<and> isPlaying (removeTrack (playTrack abc 1 True) 1) = False
   \<and> currentTrackIndex (removeTrack (playTrack abc 1 True) 1) = - 1
   \<and> playlist (removeTrack (playTrack abc 1 True) 1) = [song ''A'', song ''C'']"
proof -
  let ?s = "playTrack abc 1 True"
  have a: "audioRef abc = Some \<lparr>src = None, paused = True, el_currentTime = 0\<rparr>"
    and l: "(1::int) < int (length (playlist abc))"
    by (simp_all add: abc_def initial_def)
  have h: "(1::int) = currentTrackIndex ?s" "(0::int) \<le> 1" "(1::int) < int (length (playlist ?s))"
    using l playTrack_index [OF a _ l, of True] by simp_all
  have p: "playlist ?s = [song ''A'', song ''B'', song ''C'']" "isPlaying ?s"
    using playTrack_index [OF a _ l, of True] by (simp_all add: abc_def)
  show ?thesis
    using h(1) p remove_active_stops [OF h] by simp
qed

text \<open>
  C3. Removing a track at an index strictly below the active index lowers the active
  index by exactly one; the new index holds the track the old one held, and the playing
  flag and the audio element are untouched. (With playlist \<open>[A, B, C]\<close> and active
  index 1, removing index 0 gives playlist \<open>[B, C]\<close> and active index 0.)
\<close>

theorem remove_before_active:
  assumes "0 \<le> index" and "index < currentTrackIndex s"
    and "currentTrackIndex s < int (length (playlist s))"
  shows "currentTrackIndex (removeTrack s index) = currentTrackIndex s - 1
    \<and> playlist (removeTrack s index) ! nat (currentTrackIndex (removeTrack s index))
        = playlist s ! nat (currentTrackIndex s)
    \<and> playlist (removeTrack s index) = take (nat index) (playlist s) @ drop (Suc (nat index)) (playlist s)
    \<and> isPlaying (removeTrack s index) = isPlaying s
    \<and> audioRef (removeTrack s index) = audioRef s"
proof -
  let ?c = "currentTrackIndex s"
  have sp: "splice1 (playlist s) index = take (nat index) (playlist s) @ drop (Suc (nat index)) (playlist s)"
    using assms by (intro splice1_in_range) linarith+
  have len: "length (take (nat index) (playlist s)) = nat index"
    using assms by simp
  have idx: "nat (?c - 1) = nat index + (nat ?c - Suc (nat index))" "Suc (nat index) + (nat ?c - Suc (nat index)) = nat ?c"
    using assms by linarith+
  have same: "(take (nat index) (playlist s) @ drop (Suc (nat index)) (playlist s)) ! nat (?c - 1) = playlist s ! nat ?c"
    using assms idx by (simp add: nth_append)
  show ?thesis
    using assms sp same by (simp add: removeTrack_def Let_def)
qed

theorem remove_before_active_witness:
  "(0::int) < currentTrackIndex (abc\<lparr>currentTrackIndex := 1, isPlaying := True\<rparr>)
   \<and> playlist (removeTrack (abc\<lparr>currentTrackIndex := 1, isPlaying := True\<rparr>) 0) = [song ''B'', song ''C'']
   \<and> currentTrackIndex (removeTrack (abc\<lparr>currentTrackIndex := 1, isPlaying := True\<rparr>) 0) = 0
   \<and> isPlaying (removeTrack (abc\<lparr>currentTrackIndex := 1, isPlaying := True\<rparr>) 0)
   \<and> playlist (removeTrack (abc\<lparr>currentTrackIndex := 1, isPlaying := True\<rparr>) 0) ! 0 = song ''B''"
proof -
  let ?s = "abc\<lparr>currentTrackIndex := 1, isPlaying := True\<rparr>"
  have h: "(0::int) \<le> 0" "0 < currentTrackIndex ?s" "currentTrackIndex ?s < int (length (playlist ?s))"
    by (simp_all add: abc_def)
  show ?thesis
    using h(2) remove_before_active [OF h] by (simp add: abc_def)
qed

section \<open>Navigation without an active track\<close>

text \<open>
  C10. In a non-empty playlist of length \<open>n\<close> whose active index is the sentinel \<open>- 1\<close>
  (the audio element mounted), \<open>prevTrack\<close> is not a no-op: it is \<open>playTrack\<close> at index
  \<open>(n - 2) mod n\<close>, the second-to-last track when \<open>n \<ge> 2\<close>; with shuffle off,
  \<open>nextTrack\<close> is \<open>playTrack\<close> at index 0. In both cases the state afterwards is the old
  one with these changes: the audio graph is built if it was not; the element's previous
  source URL, if any, is revoked and a new object URL of that track's file is created
  and assigned to the element; the index is that track's; and \<open>audio.play()\<close> is
  attempted: when it resolves the element is no longer paused and the playing flag is
  true, when it rejects the flag is false.
\<close>

theorem navigation_without_active_track:
  assumes "playlist s \<noteq> []" and "currentTrackIndex s = - 1" and "audioRef s = Some a"
  shows "prevTrack s ok = playTrack s ((int (length (playlist s)) - 2) mod int (length (playlist s))) ok
    \<and> prevTrack s ok =
        s\<lparr>analyserRef := Some (case analyserRef s of
                                 None \<Rightarrow> \<lparr>fftSize = 256, source_connected = True\<rparr>
                               | Some g \<Rightarrow> g),
          urls := (case src a of None \<Rightarrow> urls s
                   | Some old \<Rightarrow> filter (\<lambda>p. fst p \<noteq> old) (urls s))
                  @ [(url_counter s,
                      t_file (playlist s
                        ! nat ((int (length (playlist s)) - 2) mod int (length (playlist s)))))],
          url_counter := Suc (url_counter s),
          url_log := url_log s @ (case src a of None \<Rightarrow> [] | Some old \<Rightarrow> [Revoke old])
                     @ [Create (url_counter s)],
          audioRef := Some (a\<lparr>src := Some (url_counter s),
                              paused := (if ok then False else paused a)\<rparr>),
          currentTrackIndex := (int (length (playlist s)) - 2) mod int (length (playlist s)),
          isPlaying := ok\<rparr>
    \<and> currentTrackIndex (prevTrack s ok) = (int (length (playlist s)) - 2) mod int (length (playlist s))
    \<and> isPlaying (prevTrack s ok) = ok
    \<and> prevTrack s ok \<noteq> s
    \<and> map_option src (audioRef (prevTrack s ok)) = Some (Some (url_counter s))
    \<and> map_option paused (audioRef (prevTrack s ok)) = Some (if ok then False else paused a)
    \<and> last (urls (prevTrack s ok))
        = (url_counter s,
           t_file (playlist s ! nat ((int (length (playlist s)) - 2) mod int (length (playlist s)))))
    \<and> (2 \<le> length (playlist s) \<longrightarrow> currentTrackIndex (prevTrack s ok) = int (length (playlist s)) - 2)
    \<and> (\<not> isShuffle s \<longrightarrow>
          nextTrack s rnd ok = playTrack s 0 ok
          \<and> nextTrack s rnd ok =
              s\<lparr>analyserRef := Some (case analyserRef s of
                                       None \<Rightarrow> \<lparr>fftSize = 256, source_connected = True\<rparr>
                                     | Some g \<Rightarrow> g),
                urls := (case src a of None \<Rightarrow> urls s
                         | Some old \<Rightarrow> filter (\<lambda>p. fst p \<noteq> old) (urls s))
                        @ [(url_counter s, t_file (playlist s ! 0))],
                url_counter := Suc (url_counter s),
                url_log := url_log s @ (case src a of None \<Rightarrow> [] | Some old \<Rightarrow> [Revoke old])
                           @ [Create (url_counter s)],
                audioRef := Some (a\<lparr>src := Some (url_counter s),
                                    paused := (if ok then False else paused a)\<rparr>),
                currentTrackIndex := 0,
                isPlaying := ok\<rparr>
          \<and> currentTrackIndex (nextTrack s rnd ok) = 0 \<and> isPlaying (nextTrack s rnd ok) = ok)"
proof -
  let ?n = "int (length (playlist s))"
  let ?j = "(?n - 2) mod ?n"
  have n: "0 < ?n" using assms(1) by simp
  have j: "0 \<le> ?j" "?j < ?n" using n by simp_all
  have rem: "js_rem (- 1 - 1 + ?n) ?n = ?j"
  proof (cases "?n = 1")
    case True
    then show ?thesis by (simp add: js_rem_def)
  next
    case False
    with n have "0 \<le> - 1 - 1 + ?n" by linarith
    then have "js_rem (- 1 - 1 + ?n) ?n = (- 1 - 1 + ?n) mod ?n"
      using n by (rule js_rem_nonneg)
    moreover have "- 1 - 1 + ?n = ?n - 2" by simp
    ultimately show ?thesis by simp
  qed
  have prev_eq: "prevTrack s ok = playTrack s ?j ok"
    using assms(1,2) rem by (simp add: prevTrack_def)
  note prev_state = playTrack_result [OF assms(3) j, of ok, folded prev_eq]
  have cur: "currentTrackIndex (playTrack s ?j ok) = ?j" "isPlaying (playTrack s ?j ok) = ok"
    using playTrack_index [OF assms(3) j] by simp_all
  have c1: "currentTrackIndex (prevTrack s ok) = ?j" and c2: "isPlaying (prevTrack s ok) = ok"
    unfolding prev_eq by (rule cur)+
  have c3: "prevTrack s ok \<noteq> s"
    using c1 j(1) assms(2) by auto
  have c4: "currentTrackIndex (prevTrack s ok) = ?n - 2" if "2 \<le> length (playlist s)"
  proof -
    from that have "0 \<le> ?n - 2" "?n - 2 < ?n" by linarith+
    then have "?j = ?n - 2" by (rule mod_pos_pos_trivial)
    with c1 show ?thesis by (simp only:)
  qed
  have next_eq: "nextTrack s rnd ok = playTrack s 0 ok" if "\<not> isShuffle s"
    using that assms(1,2) by (simp add: nextTrack_def js_rem_def)
  have next_state: "nextTrack s rnd ok =
              s\<lparr>analyserRef := Some (case analyserRef s of
                                       None \<Rightarrow> \<lparr>fftSize = 256, source_connected = True\<rparr>
                                     | Some g \<Rightarrow> g),
                urls := (case src a of None \<Rightarrow> urls s
                         | Some old \<Rightarrow> filter (\<lambda>p. fst p \<noteq> old) (urls s))
                        @ [(url_counter s, t_file (playlist s ! 0))],
                url_counter := Suc (url_counter s),
                url_log := url_log s @ (case src a of None \<Rightarrow> [] | Some old \<Rightarrow> [Revoke old])
                           @ [Create (url_counter s)],
                audioRef := Some (a\<lparr>src := Some (url_counter s),
                                    paused := (if ok then False else paused a)\<rparr>),
                currentTrackIndex := 0,
                isPlaying := ok\<rparr>"
    if "\<not> isShuffle s"
    unfolding next_eq [OF that] using playTrack_result [OF assms(3) _ n, of ok] by simp
  have cur0: "currentTrackIndex (playTrack s 0 ok) = 0" "isPlaying (playTrack s 0 ok) = ok"
    using playTrack_index [OF assms(3) _ n] by simp_all
  have c5: "currentTrackIndex (nextTrack s rnd ok) = 0" "isPlaying (nextTrack s rnd ok) = ok"
    if "\<not> isShuffle s"
    unfolding next_eq [OF that] by (rule cur0)+
  have c6: "map_option src (audioRef (prevTrack s ok)) = Some (Some (url_counter s))"
    and c7: "last (urls (prevTrack s ok)) = (url_counter s, t_file (playlist s ! nat ?j))"
    unfolding prev_eq by (rule playTrack_loads [OF assms(3) j])+
  have c8: "map_option paused (audioRef (prevTrack s ok)) = Some (if ok then False else paused a)"
    unfolding prev_eq playTrack_result [OF assms(3) j] by simp
  show ?thesis
    using prev_eq prev_state c1 c2 c3 c4 next_eq next_state c5 c6 c7 c8 by blast
qed

theorem navigation_without_active_track_witness:
  "playlist abc \<noteq> [] \<and> currentTrackIndex abc = - 1 \<and> \<not> isShuffle abc
   \<and> currentTrackIndex (prevTrack abc True) = 1
   \<and> isPlaying (prevTrack abc True)
   \<and> audioRef (prevTrack abc True) = Some \<lparr>src = Some 0, paused = False, el_currentTime = 0\<rparr>
   \<and> analyserRef (prevTrack abc True) = Some analyser0
   \<and> urls (prevTrack abc True) = [(0, t_file (song ''B''))]
   \<and> currentTrackIndex (nextTrack abc 0 True) = 0
   \<and> isPlaying (nextTrack abc 0 True)
   \<and> audioRef (nextTrack abc 0 True) = Some \<lparr>src = Some 0, paused = False, el_currentTime = 0\<rparr>
   \<and> urls (nextTrack abc 0 True) = [(0, t_file (song ''A''))]"
proof -
  have h: "playlist abc \<noteq> []" "currentTrackIndex abc = - 1"
    "audioRef abc = Some \<lparr>src = None, paused = True, el_currentTime = 0\<rparr>"
    by (simp_all add: abc_def initial_def)
  have g: "\<not> isShuffle abc" "int (length (playlist abc)) = 3"
    by (simp_all add: abc_def initial_def)
  have f: "analyserRef abc = None" "urls abc = []" "url_counter abc = 0" "url_log abc = []"
    "playlist abc ! Suc 0 = song ''B''" "playlist abc ! 0 = song ''A''"
    by (simp_all add: abc_def initial_def)
  note r = navigation_without_active_track [OF h, of True 0, unfolded g]
  have p: "prevTrack abc True =
      abc\<lparr>analyserRef := Some analyser0, urls := [(0, t_file (song ''B''))], url_counter := 1,
          url_log := [Create 0],
          audioRef := Some \<lparr>src = Some 0, paused = False, el_currentTime = 0\<rparr>,
          currentTrackIndex := 1, isPlaying := True\<rparr>"
    using r [THEN conjunct2, THEN conjunct1] by (simp add: f analyser0_def)
  from r g(1) have "nextTrack abc 0 True = playTrack abc 0 True
          \<and> nextTrack abc 0 True =
              abc\<lparr>analyserRef := Some (case analyserRef abc of
                                       None \<Rightarrow> \<lparr>fftSize = 256, source_connected = True\<rparr>
                                     | Some g \<Rightarrow> g),
                urls := (case src \<lparr>src = None, paused = True, el_currentTime = 0\<rparr> of None \<Rightarrow> urls abc
                         | Some old \<Rightarrow> filter (\<lambda>p. fst p \<noteq> old) (urls abc))
                        @ [(url_counter abc, t_file (playlist abc ! 0))],
                url_counter := Suc (url_counter abc),
                url_log := url_log abc @ (case src \<lparr>src = None, paused = True, el_currentTime = 0\<rparr> of None \<Rightarrow> [] | Some old \<Rightarrow> [Revoke old])
                           @ [Create (url_counter abc)],
                audioRef := Some (\<lparr>src = None, paused = True, el_currentTime = 0\<rparr>\<lparr>src := Some (url_counter abc),
                                    paused := (if True then False else paused \<lparr>src = None, paused = True, el_currentTime = 0\<rparr>)\<rparr>),
                currentTrackIndex := 0,
                isPlaying := True\<rparr>
          \<and> currentTrackIndex (nextTrack abc 0 True) = 0 \<and> isPlaying (nextTrack abc 0 True) = True"
    by blast
  from this [THEN conjunct2, THEN conjunct1] have q: "nextTrack abc 0 True =
      abc\<lparr>analyserRef := Some analyser0, urls := [(0, t_file (song ''A''))], url_counter := 1,
          url_log := [Create 0],
          audioRef := Some \<lparr>src = Some 0, paused = False, el_currentTime = 0\<rparr>,
          currentTrackIndex := 0, isPlaying := True\<rparr>"
    by (simp add: f analyser0_def)
  show ?thesis
    unfolding p q using h(1,2) g(1) by simp
qed

section \<open>The sentinel index and the playing flag\<close>

text \<open>
  C6. The claim is that every operation keeps the playing flag false while the active
  index is the sentinel \<open>- 1\<close>. In the freshly mounted player (empty playlist, index
  \<open>- 1\<close>, not playing), \<open>togglePlay\<close> skips its "play first" branch, which asks for a
  non-empty playlist, and falls through to flipping the flag: afterwards the flag is
  true and the index is still \<open>- 1\<close>.
\<close>

theorem togglePlay_empty_playlist:
  "currentTrackIndex initial = - 1 \<and> isPlaying initial = False
   \<and> currentTrackIndex (togglePlay initial ok) = - 1
   \<and> isPlaying (togglePlay initial ok) = True
   \<and> playlist (togglePlay initial ok) = []"
  by (simp add: togglePlay_def initial_def initAudioContext_def)

text \<open>
  The other operations keep the flag false at the sentinel, and so does \<open>togglePlay\<close>
  itself unless the playlist is empty while no track is active.
\<close>

lemma playTrack_sentinel: "sentinel_inv s \<Longrightarrow> sentinel_inv (playTrack s i ok)"
  by (auto simp: sentinel_inv_def playTrack_def initAudioContext_def createObjectURL_def
      revokeObjectURL_def Let_def split: option.splits)

lemma sentinel_kept_elsewhere:
  assumes "sentinel_inv s"
  shows "sentinel_inv (playTrack s i ok)"
    and "sentinel_inv (nextTrack s rnd ok)"
    and "sentinel_inv (prevTrack s ok)"
    and "0 \<le> i \<Longrightarrow> sentinel_inv (removeTrack s i)"
    and "playlist s \<noteq> [] \<or> currentTrackIndex s \<noteq> - 1 \<Longrightarrow> sentinel_inv (togglePlay s ok)"
  using assms playTrack_sentinel [OF assms]
  by (auto simp: sentinel_inv_def nextTrack_def prevTrack_def removeTrack_def togglePlay_def
      initAudioContext_def Let_def split: option.splits)

section \<open>AI mood summary: the cases without a response\<close>

text \<open>
  C7. With an empty playlist \<open>analyzePlaylist\<close> returns at once: the state is unchanged,
  so no request is sent and the summary text stays as it was (the empty string in a
  fresh player).
\<close>

theorem analyze_empty_playlist:
  assumes "playlist s = []"
  shows "analyzePlaylist s api_key outcome = s
    \<and> requests (analyzePlaylist s api_key outcome) = requests s
    \<and> aiAnalysis (analyzePlaylist s api_key outcome) = aiAnalysis s"
  using assms by (simp add: analyzePlaylist_def)

theorem analyze_empty_playlist_witness:
  "playlist initial = []
   \<and> requests (analyzePlaylist initial (Some ''key'') (Resolved ''calm'')) = []
   \<and> aiAnalysis (analyzePlaylist initial (Some ''key'') (Resolved ''calm'')) = []"
proof -
  have h: "playlist initial = []" by (simp add: initial_def)
  show ?thesis
    using h analyze_empty_playlist [OF h, of "Some ''key''" "Resolved ''calm''"]
    by (simp add: initial_def)
qed

text \<open>
  C8. The claim is that a missing credential and a failed call show the same fixed
  message. On the three-track playlist the two summaries differ.
\<close>

theorem fallback_messages_differ_counterexample:
  "aiAnalysis (analyzePlaylist abc None Rejected) \<noteq> aiAnalysis (analyzePlaylist abc (Some ''key'') Rejected)"
  by (simp add: analyzePlaylist_def abc_def initial_def key_missing_msg_def connection_error_msg_def)

text \<open>
  C8, as the code has it. With a non-empty playlist: when the credential is undefined or
  empty, no request is sent and the summary is the fixed text \<open>key_missing_msg\<close>; when a
  credential is present and the call rejects, exactly one request has been sent, the
  rejection is caught and the summary is the fixed text \<open>connection_error_msg\<close>, which
  is a different text. In every case the function returns with \<open>isAnalyzing\<close> false.
\<close>

theorem analyze_fallbacks:
  assumes "playlist s \<noteq> []" and "k \<noteq> []"
  shows "aiAnalysis (analyzePlaylist s None outcome) = key_missing_msg
    \<and> aiAnalysis (analyzePlaylist s (Some []) outcome) = key_missing_msg
    \<and> requests (analyzePlaylist s None outcome) = requests s
    \<and> requests (analyzePlaylist s (Some []) outcome) = requests s
    \<and> aiAnalysis (analyzePlaylist s (Some k) Rejected) = connection_error_msg
    \<and> requests (analyzePlaylist s (Some k) Rejected) = requests s @ [join (map t_name (playlist s)) '', '']
    \<and> isAnalyzing (analyzePlaylist s None outcome) = False
    \<and> isAnalyzing (analyzePlaylist s (Some []) outcome) = False
    \<and> isAnalyzing (analyzePlaylist s (Some k) Rejected) = False
    \<and> key_missing_msg \<noteq> connection_error_msg"
  using assms
  by (simp add: analyzePlaylist_def Let_def key_missing_msg_def connection_error_msg_def)

theorem analyze_fallbacks_witness:
  "playlist abc \<noteq> [] \<and> ''key'' \<noteq> []
   \<and> aiAnalysis (analyzePlaylist abc None Rejected) = ''API Key Missing. Cannot analyze.''
   \<and> requests (analyzePlaylist abc None Rejected) = []
   \<and> aiAnalysis (analyzePlaylist abc (Some ''key'') Rejected) = connection_error_msg
   \<and> requests (analyzePlaylist abc (Some ''key'') Rejected) = [''A, B, C'']"
proof -
  have h: "playlist abc \<noteq> []" "''key'' \<noteq> []" by (simp_all add: abc_def)
  have r: "requests abc = []" "join (map t_name (playlist abc)) '', '' = ''A, B, C''"
    by (simp_all add: abc_def initial_def song_def)
  show ?thesis
    using h r analyze_fallbacks [OF h, of Rejected] by (simp add: key_missing_msg_def)
qed

section \<open>Ingestion\<close>







lemma handleFileSelect_handleDrop: "handleFileSelect s files uuid = handleDrop s files uuid"
  by (simp add: handleFileSelect_def handleDrop_def)





section \<open>One object URL at a time\<close>

lemma replay_append: "replay live (xs @ ys) = replay (replay live xs) ys"
proof (induction xs arbitrary: live)
  case Nil
  then show ?case by simp
next
  case (Cons x xs)
  then show ?case by (cases x) simp_all
qed

lemma live_after_snoc:
  "live_after (xs @ [Create u]) = live_after xs @ [u]"
  "live_after (xs @ [Revoke u]) = filter (\<lambda>v. v \<noteq> u) (live_after xs)"
  by (simp_all add: live_after_def replay_append)

lemma prefixes_snoc:
  "(\<forall>n. P (take n (xs @ [x]))) = ((\<forall>n. P (take n xs)) \<and> P (xs @ [x]))"
proof (intro iffI conjI allI)
  fix n assume a: "\<forall>n. P (take n (xs @ [x]))"
  show "P (take n xs)"
  proof (cases "n \<le> length xs")
    case True
    with a [rule_format, of n] show ?thesis by simp
  next
    case False
    with a [rule_format, of "length xs"] show ?thesis by simp
  qed
next
  assume a: "\<forall>n. P (take n (xs @ [x]))"
  from a [rule_format, of "Suc (length xs)"] show "P (xs @ [x])" by simp
next
  fix n assume a: "(\<forall>n. P (take n xs)) \<and> P (xs @ [x])"
  show "P (take n (xs @ [x]))"
  proof (cases "n \<le> length xs")
    case True
    with a show ?thesis by simp
  next
    case False
    then have "take n (xs @ [x]) = xs @ [x]" by simp
    with a show ?thesis by simp
  qed
qed

lemma at_most_one_snoc:
  assumes "\<forall>n. length (live_after (take n xs)) \<le> 1"
    and "length (live_after (xs @ [x])) \<le> 1"
  shows "\<forall>n. length (live_after (take n (xs @ [x]))) \<le> 1"
  using assms prefixes_snoc [of "\<lambda>l. length (live_after l) \<le> 1" xs x] by blast

lemma url_inv_initial: "url_inv initial"
  by (simp add: url_inv_def initial_def live_after_def)

lemma url_inv_cong:
  assumes "map_option src (audioRef t) = map_option src (audioRef s)"
    and "urls t = urls s" and "url_log t = url_log s" and "url_inv s"
  shows "url_inv t"
proof -
  from assms(4) obtain a where a: "audioRef s = Some a"
    and m: "map fst (urls s) = (case src a of None \<Rightarrow> [] | Some u \<Rightarrow> [u])"
    and l: "live_after (url_log s) = map fst (urls s)"
    and p: "\<forall>n. length (live_after (take n (url_log s))) \<le> 1"
    by (auto simp: url_inv_def split: option.splits)
  from assms(1) a obtain b where b: "audioRef t = Some b" "src b = src a"
    by (cases "audioRef t") auto
  show ?thesis
    using b m l p assms(2,3) by (simp add: url_inv_def)
qed

lemma initAudioContext_urls:
  "map_option src (audioRef (initAudioContext s)) = map_option src (audioRef s)"
  "urls (initAudioContext s) = urls s" "url_log (initAudioContext s) = url_log s"
  by (simp_all add: initAudioContext_def split: option.splits)

lemma playTrack_no_track:
  "\<not> (0 \<le> i \<and> i < int (length (playlist s))) \<Longrightarrow> playTrack s i ok = initAudioContext s"
  by (auto simp: playTrack_def initAudioContext_def Let_def split: option.splits)

lemma playTrack_url_log:
  assumes "url_inv s" "0 \<le> i" "i < int (length (playlist s))"
  shows "urls (playTrack s i ok) = [(url_counter s, t_file (playlist s ! nat i))]"
    and "url_log (playTrack s i ok)
         = url_log s @ (case Option.bind (audioRef s) src of None \<Rightarrow> [] | Some old \<Rightarrow> [Revoke old])
           @ [Create (url_counter s)]"
    and "url_inv (playTrack s i ok)"
proof -
  from assms(1) obtain a where a: "audioRef s = Some a"
    and m: "map fst (urls s) = (case src a of None \<Rightarrow> [] | Some u \<Rightarrow> [u])"
    and l: "live_after (url_log s) = map fst (urls s)"
    and p: "\<forall>n. length (live_after (take n (url_log s))) \<le> 1"
    by (auto simp: url_inv_def split: option.splits)
  note r = playTrack_result [OF a assms(2,3), of ok]
  have f: "filter (\<lambda>p. fst p \<noteq> u) (urls s) = []" if "src a = Some u" for u
    using m that by (cases "urls s") auto
  have g: "filter (\<lambda>v. v \<noteq> u) (map fst (urls s)) = []" if "src a = Some u" for u
    using m that by simp
  have e: "urls s = []" if "src a = None"
    using m that by simp
  show u: "urls (playTrack s i ok) = [(url_counter s, t_file (playlist s ! nat i))]"
    unfolding r using f e by (cases "src a") simp_all
  show lg: "url_log (playTrack s i ok)
         = url_log s @ (case Option.bind (audioRef s) src of None \<Rightarrow> [] | Some old \<Rightarrow> [Revoke old])
           @ [Create (url_counter s)]"
    unfolding r using a by simp
  show "url_inv (playTrack s i ok)"
  proof (cases "src a")
    case None
    have lg': "url_log (playTrack s i ok) = url_log s @ [Create (url_counter s)]"
      using lg a None by simp
    have "live_after (url_log (playTrack s i ok)) = [url_counter s]"
      unfolding lg' using l e [OF None] by (simp add: live_after_snoc)
    moreover have "\<forall>n. length (live_after (take n (url_log (playTrack s i ok)))) \<le> 1"
      unfolding lg' using p
    proof (rule at_most_one_snoc)
      show "length (live_after (url_log s @ [Create (url_counter s)])) \<le> 1"
        using l e [OF None] by (simp add: live_after_snoc)
    qed
    moreover have "audioRef (playTrack s i ok)
        = Some (a\<lparr>src := Some (url_counter s), paused := (if ok then False else paused a)\<rparr>)"
      unfolding r by simp
    ultimately show ?thesis
      using u by (simp add: url_inv_def)
  next
    case (Some old)
    have lg': "url_log (playTrack s i ok) = (url_log s @ [Revoke old]) @ [Create (url_counter s)]"
      using lg a Some by simp
    have mid: "live_after (url_log s @ [Revoke old]) = []"
      using l g [OF Some] by (simp add: live_after_snoc)
    have "live_after (url_log (playTrack s i ok)) = [url_counter s]"
      unfolding lg' using mid by (simp add: live_after_snoc del: append_assoc)
    moreover have "\<forall>n. length (live_after (take n (url_log (playTrack s i ok)))) \<le> 1"
      unfolding lg'
    proof (rule at_most_one_snoc)
      show "\<forall>n. length (live_after (take n (url_log s @ [Revoke old]))) \<le> 1"
        using p by (rule at_most_one_snoc) (simp add: mid)
      show "length (live_after ((url_log s @ [Revoke old]) @ [Create (url_counter s)])) \<le> 1"
        using mid by (simp add: live_after_snoc del: append_assoc)
    qed
    moreover have "audioRef (playTrack s i ok)
        = Some (a\<lparr>src := Some (url_counter s), paused := (if ok then False else paused a)\<rparr>)"
      unfolding r by simp
    ultimately show ?thesis
      using u by (simp add: url_inv_def)
  qed
qed

lemma url_inv_playTrack: "url_inv s \<Longrightarrow> url_inv (playTrack s i ok)"
proof (cases "0 \<le> i \<and> i < int (length (playlist s))")
  case True
  assume "url_inv s"
  with True show ?thesis by (simp add: playTrack_url_log)
next
  case False
  assume inv: "url_inv s"
  show ?thesis
    unfolding playTrack_no_track [OF False] by (rule url_inv_cong [OF initAudioContext_urls inv])
qed

lemma togglePlay_urls:
  assumes "\<not> (currentTrackIndex s = - 1 \<and> length (playlist s) > 0)"
  shows "map_option src (audioRef (togglePlay s ok)) = map_option src (audioRef s)"
    "urls (togglePlay s ok) = urls s" "url_log (togglePlay s ok) = url_log s"
  using assms
  by (auto simp: togglePlay_def initAudioContext_def Let_def split: option.splits)

lemma url_inv_togglePlay: "url_inv s \<Longrightarrow> url_inv (togglePlay s ok)"
proof (cases "currentTrackIndex s = - 1 \<and> length (playlist s) > 0")
  case True
  assume inv: "url_inv s"
  then obtain a where "audioRef s = Some a"
    by (auto simp: url_inv_def split: option.splits)
  with True have "togglePlay s ok = playTrack s 0 ok" by (simp add: togglePlay_def)
  with inv show ?thesis by (simp add: url_inv_playTrack)
next
  case False
  assume inv: "url_inv s"
  show ?thesis by (rule url_inv_cong [OF togglePlay_urls [OF False] inv])
qed

lemma url_inv_nextTrack: "url_inv s \<Longrightarrow> url_inv (nextTrack s rnd ok)"
  by (simp add: nextTrack_def Let_def url_inv_playTrack)

lemma url_inv_prevTrack: "url_inv s \<Longrightarrow> url_inv (prevTrack s ok)"
  by (simp add: prevTrack_def Let_def url_inv_playTrack)

lemma removeTrack_urls:
  "map_option src (audioRef (removeTrack s i)) = map_option src (audioRef s)"
  "urls (removeTrack s i) = urls s" "url_log (removeTrack s i) = url_log s"
  by (simp_all add: removeTrack_def Let_def split: option.splits)

lemma handleDrop_urls:
  "map_option src (audioRef (handleDrop s files uuid)) = map_option src (audioRef s)"
  "urls (handleDrop s files uuid) = urls s" "url_log (handleDrop s files uuid) = url_log s"
  by (simp_all add: handleDrop_def Let_def)

lemma analyzePlaylist_urls:
  "map_option src (audioRef (analyzePlaylist s k out)) = map_option src (audioRef s)"
  "urls (analyzePlaylist s k out) = urls s" "url_log (analyzePlaylist s k out) = url_log s"
  by (cases out; simp add: analyzePlaylist_def Let_def)+

lemma url_inv_handle: "url_inv s \<Longrightarrow> url_inv (handle s e)"
proof (cases e)
  case (RemoveTrack i)
  assume inv: "url_inv s"
  show ?thesis unfolding RemoveTrack handle.simps
    by (rule url_inv_cong [OF removeTrack_urls inv])
next
  case (Drop files uuid)
  assume inv: "url_inv s"
  show ?thesis unfolding Drop handle.simps
    by (rule url_inv_cong [OF handleDrop_urls inv])
next
  case (FileSelect files uuid)
  assume inv: "url_inv s"
  show ?thesis unfolding FileSelect handle.simps handleFileSelect_handleDrop
    by (rule url_inv_cong [OF handleDrop_urls inv])
next
  case ToggleShuffle
  assume inv: "url_inv s"
  show ?thesis unfolding ToggleShuffle handle.simps
    by (rule url_inv_cong [OF _ _ _ inv]) simp_all
next
  case (Analyze k out)
  assume inv: "url_inv s"
  show ?thesis unfolding Analyze handle.simps
    by (rule url_inv_cong [OF analyzePlaylist_urls inv])
qed (simp_all add: url_inv_playTrack url_inv_togglePlay url_inv_nextTrack url_inv_prevTrack)

lemma url_inv_run: "url_inv s \<Longrightarrow> url_inv (run s es)"
  by (induction es arbitrary: s) (simp_all add: url_inv_handle)

lemma url_inv_at_most_one: "url_inv s \<Longrightarrow> length (urls s) \<le> 1"
proof -
  assume "url_inv s"
  then have "length (map fst (urls s)) \<le> 1"
    by (auto simp: url_inv_def split: option.splits)
  then show ?thesis by simp
qed

text \<open>
  C5. The claim says that the object URL of a track is released when the track is
  removed. Playing track \<open>A\<close> of the three-track playlist and then removing it leaves
  the URL created for \<open>A\<close> outstanding.
\<close>

theorem removed_track_url_outstanding_counterexample:
  "playlist (removeTrack (playTrack abc 0 True) 0) = [song ''B'', song ''C'']
   \<and> urls (removeTrack (playTrack abc 0 True) 0) = [(0, t_file (song ''A''))]"
  by (simp add: removeTrack_def playTrack_def initAudioContext_def createObjectURL_def
      abc_def initial_def splice1_def Let_def)

text \<open>
  C5, as the code has it. In every session from the mounted player: after each call of
  \<open>URL.createObjectURL\<close> or \<open>URL.revokeObjectURL\<close> made so far, at most one object URL
  was outstanding, and the store holds what those calls leave. \<open>playTrack\<close> at an index
  of the playlist first revokes the element's source, if it has one, and then creates
  the URL of the track it loads, which is afterwards the only one outstanding.
  \<open>removeTrack\<close> (in any state) makes no such call: the store and the element's source
  are as before, so the URL of a removed track stays until the next \<open>playTrack\<close>.
\<close>

theorem object_url_discipline:
  "(\<forall>n. length (live_after (take n (url_log (run initial es)))) \<le> 1)
   \<and> live_after (url_log (run initial es)) = map fst (urls (run initial es))
   \<and> length (urls (run initial es)) \<le> 1
   \<and> (0 \<le> i \<and> i < int (length (playlist (run initial es)))
        \<longrightarrow> url_log (playTrack (run initial es) i ok)
              = url_log (run initial es)
                @ (case Option.bind (audioRef (run initial es)) src of
                     None \<Rightarrow> [] | Some old \<Rightarrow> [Revoke old])
                @ [Create (url_counter (run initial es))]
            \<and> urls (playTrack (run initial es) i ok)
              = [(url_counter (run initial es), t_file (playlist (run initial es) ! nat i))])
   \<and> url_log (removeTrack s index) = url_log s
   \<and> urls (removeTrack s index) = urls s
   \<and> map_option src (audioRef (removeTrack s index)) = map_option src (audioRef s)"
proof -
  have inv: "url_inv (run initial es)"
    by (rule url_inv_run [OF url_inv_initial])
  then have a: "\<forall>n. length (live_after (take n (url_log (run initial es)))) \<le> 1"
    and b: "live_after (url_log (run initial es)) = map fst (urls (run initial es))"
    by (simp_all add: url_inv_def)
  have c: "length (urls (run initial es)) \<le> 1"
    by (rule url_inv_at_most_one [OF inv])
  have d: "url_log (playTrack (run initial es) i ok)
              = url_log (run initial es)
                @ (case Option.bind (audioRef (run initial es)) src of
                     None \<Rightarrow> [] | Some old \<Rightarrow> [Revoke old])
                @ [Create (url_counter (run initial es))]
            \<and> urls (playTrack (run initial es) i ok)
              = [(url_counter (run initial es), t_file (playlist (run initial es) ! nat i))]"
    if "0 \<le> i \<and> i < int (length (playlist (run initial es)))"
    using that playTrack_url_log(1,2) [OF inv, of i ok] by blast
  show ?thesis
    using a b c d removeTrack_urls [of s index] by blast
qed

theorem object_url_discipline_witness:
  "(0::int) \<le> 0 \<and> 0 < int (length (playlist (run initial session)))
   \<and> url_log (run initial session) = [Create 0]
   \<and> length (live_after (take 1 (url_log (run initial session)))) \<le> 1
   \<and> length (urls (run initial session)) \<le> 1
   \<and> url_log (playTrack (run initial session) 0 True) = [Create 0, Revoke 0, Create 1]
   \<and> urls (playTrack (run initial session) 0 True)
       = [(1, \<lparr>fname = ''two.ogg'', ftype = ''audio/ogg''\<rparr>)]
   \<and> urls (removeTrack (playTrack abc 0 True) 0) = urls (playTrack abc 0 True)"
proof -
  have e: "playlist (run initial session)
             = [\<lparr>t_file = \<lparr>fname = ''two.ogg'', ftype = ''audio/ogg''\<rparr>, t_id = ''uu'', t_name = ''two''\<rparr>]"
    "url_counter (run initial session) = 1"
    "url_log (run initial session) = [Create 0]"
    "audioRef (run initial session) = Some \<lparr>src = Some 0, paused = True, el_currentTime = 0\<rparr>"
    by (simp_all add: session_def handleFileSelect_def playTrack_def removeTrack_def
        initAudioContext_def createObjectURL_def revokeObjectURL_def splice1_def
        is_audio_def startsWith_def initial_def numbered_def Let_def numeral_2_eq_2)
  have h: "(0::int) \<le> 0 \<and> 0 < int (length (playlist (run initial session)))"
    by (simp add: e)
  note r = object_url_discipline [of session 0 True "playTrack abc 0 True" 0]
  from r have p: "\<forall>n. length (live_after (take n (url_log (run initial session)))) \<le> 1"
    and c: "length (urls (run initial session)) \<le> 1"
    and d: "urls (removeTrack (playTrack abc 0 True) 0) = urls (playTrack abc 0 True)"
    by blast+
  from r h have "url_log (playTrack (run initial session) 0 True)
              = url_log (run initial session)
                @ (case Option.bind (audioRef (run initial session)) src of
                     None \<Rightarrow> [] | Some old \<Rightarrow> [Revoke old])
                @ [Create (url_counter (run initial session))]"
    and "urls (playTrack (run initial session) 0 True)
              = [(url_counter (run initial session), t_file (playlist (run initial session) ! nat 0))]"
    by blast+
  then have l: "url_log (playTrack (run initial session) 0 True) = [Create 0, Revoke 0, Create 1]"
    and u: "urls (playTrack (run initial session) 0 True)
              = [(1, \<lparr>fname = ''two.ogg'', ftype = ''audio/ogg''\<rparr>)]"
    by (simp_all add: e)
  from p have p1: "length (live_after (take 1 (url_log (run initial session)))) \<le> 1"
    by (rule spec)
  show ?thesis
    using h e(3) p1 c l u d by (intro conjI) simp_all
qed

section \<open>Visualizer bars\<close>














end
